theory Spec2Isabelle
  imports Complex_Main "HOL-Library.Log_Nat"
begin

section \<open>Python values and exceptions\<close>

text \<open>
  The exceptions of \<^verbatim>\<open>prayer-counter.py\<close>. Python's hierarchy has
  \<^verbatim>\<open>BaseException\<close> at the root; \<^verbatim>\<open>except Exception\<close> catches the
  members of \<open>exc\<close>, and \<^verbatim>\<open>KeyboardInterrupt\<close> (Ctrl+C) is not one of them.
\<close>

datatype exc = KeyError | TypeError | ValueError | OverflowError | OSError | RequestException

datatype exn = KeyboardInterrupt | Exception exc

text \<open>
  A value decoded by \<^verbatim>\<open>response.json()\<close>. \<open>JFloat r\<close> is a float whose value
  is the number \<open>r\<close>; a float literal of the source is the number it is written as.
  \<open>JObj\<close> holds the items of a dict.
\<close>

datatype json =
    JNull
  | JBool bool
  | JInt int
  | JFloat real
  | JStr string
  | JArr "json list"
  | JObj "(string \<times> json) list"

text \<open>\<^verbatim>\<open>d[k]\<close> for a string key \<open>k\<close>: a dict looks the key up, every other
  value is not subscriptable by a string.\<close>

fun getitem :: "json \<Rightarrow> string \<Rightarrow> exc + json" where
  "getitem (JObj kvs) k = (case map_of kvs k of None \<Rightarrow> Inl KeyError | Some v \<Rightarrow> Inr v)"
| "getitem _ k = Inl TypeError"

text \<open>\<^verbatim>\<open>v == 200\<close> and \<^verbatim>\<open>v == 'success'\<close>: numbers compare by value
  (\<^verbatim>\<open>True\<close> is 1), a string is equal to a string only.\<close>

fun eq_int :: "json \<Rightarrow> int \<Rightarrow> bool" where
  "eq_int (JInt n) k = (n = k)"
| "eq_int (JFloat r) k = (r = of_int k)"
| "eq_int (JBool b) k = ((if b then 1 else 0) = k)"
| "eq_int _ k = False"

fun eq_str :: "json \<Rightarrow> string \<Rightarrow> bool" where
  "eq_str (JStr s) k = (s = k)"
| "eq_str _ k = False"

section \<open>Naive datetimes\<close>

text \<open>
  A naive \<^verbatim>\<open>datetime\<close> is a point of the proleptic Gregorian time line, counted
  here in microseconds since \<^verbatim>\<open>0001-01-01 00:00:00\<close>. Its date is the number of whole
  days (\<^verbatim>\<open>toordinal() - 1\<close>); comparison and subtraction are those of the integers.
  The last representable date is \<^verbatim>\<open>9999-12-31\<close>, of ordinal 3652059.
\<close>

type_synonym datetime = int

definition DAY :: int where
  "DAY = 86400000000"

definition MAXORDINAL :: int where
  "MAXORDINAL = 3652059"

definition date_of :: "datetime \<Rightarrow> int" where
  "date_of t = t div DAY"

text \<open>\<^verbatim>\<open>datetime(date, hour, minute, second, microsecond)\<close>, the date given by
  its day number.\<close>

definition mk_datetime :: "int \<Rightarrow> int \<Rightarrow> int \<Rightarrow> int \<Rightarrow> int \<Rightarrow> datetime" where
  "mk_datetime d h m s us = d * DAY + ((h * 60 + m) * 60 + s) * 1000000 + us"

text \<open>\<^verbatim>\<open>t + timedelta(days=1)\<close>: raises \<^verbatim>\<open>OverflowError\<close> past the last date.\<close>

definition add_one_day :: "datetime \<Rightarrow> exc + datetime" where
  "add_one_day t = (if date_of (t + DAY) < MAXORDINAL then Inr (t + DAY) else Inl OverflowError)"

subsection \<open>\<^verbatim>\<open>datetime.strptime(s, '%H:%M')\<close>\<close>

text \<open>
  The format compiles to the regular expression
  \<^verbatim>\<open>(2[0-3]|[0-1]\d|\d):([0-5]\d|\d)\<close>, matched at the start of the string; data
  left over after the match is a \<^verbatim>\<open>ValueError\<close>, as no match is. The alternatives
  are tried in this order, and a shorter one can never succeed where a longer one was
  followed by a mismatch, so the match is deterministic. Strings are ASCII here.
\<close>

definition is_digit :: "char \<Rightarrow> bool" where
  "is_digit c = (48 \<le> (of_char c :: nat) \<and> (of_char c :: nat) \<le> 57)"

definition digit_val :: "char \<Rightarrow> nat" where
  "digit_val c = of_char c - 48"

fun match_H :: "string \<Rightarrow> (nat \<times> string) option" where
  "match_H (a # b # rest) =
     (if a = CHR ''2'' \<and> is_digit b \<and> digit_val b \<le> 3 then Some (20 + digit_val b, rest)
      else if (a = CHR ''0'' \<or> a = CHR ''1'') \<and> is_digit b
        then Some (10 * digit_val a + digit_val b, rest)
      else if is_digit a then Some (digit_val a, b # rest)
      else None)"
| "match_H [a] = (if is_digit a then Some (digit_val a, []) else None)"
| "match_H [] = None"

fun match_M :: "string \<Rightarrow> (nat \<times> string) option" where
  "match_M (a # b # rest) =
     (if is_digit a \<and> digit_val a \<le> 5 \<and> is_digit b
        then Some (10 * digit_val a + digit_val b, rest)
      else if is_digit a then Some (digit_val a, b # rest)
      else None)"
| "match_M [a] = (if is_digit a then Some (digit_val a, []) else None)"
| "match_M [] = None"

definition strptime_HM :: "string \<Rightarrow> exc + (nat \<times> nat)" where
  "strptime_HM s =
     (case match_H s of
        None \<Rightarrow> Inl ValueError
      | Some (h, r1) \<Rightarrow>
          (case r1 of
             [] \<Rightarrow> Inl ValueError
           | c # r2 \<Rightarrow>
               if c \<noteq> CHR '':'' then Inl ValueError
               else (case match_M r2 of
                       None \<Rightarrow> Inl ValueError
                     | Some (m, r3) \<Rightarrow> if r3 = [] then Inr (h, m) else Inl ValueError)))"

section \<open>The timer\<close>

text \<open>The fields of \<^verbatim>\<open>PrayerTimer\<close> that the countdown reads and writes.\<close>

record timer =
  prayer_times :: "string \<rightharpoonup> json"
  announced_intervals :: "int set"
  current_prayer_announced :: bool

definition PRAYERS :: "string list" where
  "PRAYERS = [''Fajr'', ''Dhuhr'', ''Asr'', ''Maghrib'', ''Isha'']"

definition ANNOUNCEMENT_INTERVALS :: "int list" where
  "ANNOUNCEMENT_INTERVALS = [180, 120, 90, 60, 45, 30, 20]"

text \<open>The timer as \<^verbatim>\<open>__init__\<close> leaves it.\<close>

definition init_timer :: timer where
  "init_timer = \<lparr>prayer_times = Map.empty, announced_intervals = {},
                  current_prayer_announced = False\<rparr>"

text \<open>A schedule to compute with: Fajr 05:00, Dhuhr 12:30, Asr 16:00, Maghrib 19:00,
  Isha 20:30.\<close>

definition example_schedule :: "string \<rightharpoonup> json" where
  "example_schedule =
     map_of [(''Fajr'', JStr ''05:00''), (''Dhuhr'', JStr ''12:30''), (''Asr'', JStr ''16:00''),
             (''Maghrib'', JStr ''19:00''), (''Isha'', JStr ''20:30'')]"

subsection \<open>\<^verbatim>\<open>should_announce\<close>\<close>

definition should_announce :: "timer \<Rightarrow> int \<Rightarrow> bool \<times> timer" where
  "should_announce s minutes_remaining =
     (if minutes_remaining \<in> set ANNOUNCEMENT_INTERVALS then
        (if minutes_remaining \<notin> announced_intervals s
         then (True, s\<lparr>announced_intervals := insert minutes_remaining (announced_intervals s)\<rparr>)
         else (False, s))
      else if 1 \<le> minutes_remaining \<and> minutes_remaining < 20 then
        (if minutes_remaining \<notin> announced_intervals s
         then (True, s\<lparr>announced_intervals := insert minutes_remaining (announced_intervals s)\<rparr>)
         else (False, s))
      else (False, s))"

text \<open>Consecutive calls of \<^verbatim>\<open>should_announce\<close> on the same timer, with the
  answers in the order of the calls.\<close>

fun announce_calls :: "timer \<Rightarrow> int list \<Rightarrow> bool list \<times> timer" where
  "announce_calls s [] = ([], s)"
| "announce_calls s (m # ms) =
     (case should_announce s m of
        (b, s') \<Rightarrow> (case announce_calls s' ms of (bs, s'') \<Rightarrow> (b # bs, s'')))"

subsection \<open>\<^verbatim>\<open>get_next_prayer\<close> and \<^verbatim>\<open>get_time_remaining\<close>\<close>

text \<open>\<^verbatim>\<open>.replace(year=..., month=..., day=...)\<close> on the parsed time: hour and
  minute are kept, seconds and microseconds are zero, the date is the one of day
  number \<open>d\<close>.\<close>

definition at_date :: "int \<Rightarrow> nat \<times> nat \<Rightarrow> datetime" where
  "at_date d hm = mk_datetime d (int (fst hm)) (int (snd hm)) 0 0"

text \<open>\<^verbatim>\<open>datetime.strptime(self.prayer_times[prayer], '%H:%M').replace(year, month, day)\<close>:
  the key may be missing, the value may not be a string, the string may not be a time.\<close>

definition prayer_datetime :: "(string \<rightharpoonup> json) \<Rightarrow> int \<Rightarrow> string \<Rightarrow> exc + datetime" where
  "prayer_datetime pt d prayer =
     (case pt prayer of
        None \<Rightarrow> Inl KeyError
      | Some (JStr str) \<Rightarrow>
          (case strptime_HM str of
             Inl e \<Rightarrow> Inl e
           | Inr hm \<Rightarrow> Inr (at_date d hm))
      | Some _ \<Rightarrow> Inl TypeError)"

text \<open>The \<^verbatim>\<open>for\<close> loop over the prayers: the first one later than \<open>now\<close> today.\<close>

fun scan_today :: "(string \<rightharpoonup> json) \<Rightarrow> datetime \<Rightarrow> string list \<Rightarrow> exc + (string \<times> datetime) option" where
  "scan_today pt now [] = Inr None"
| "scan_today pt now (prayer # rest) =
     (case prayer_datetime pt (date_of now) prayer of
        Inl e \<Rightarrow> Inl e
      | Inr prayer_time \<Rightarrow>
          if prayer_time > now then Inr (Some (prayer, prayer_time))
          else scan_today pt now rest)"

definition get_next_prayer :: "(string \<rightharpoonup> json) \<Rightarrow> datetime \<Rightarrow> exc + (string \<times> datetime)" where
  "get_next_prayer pt now =
     (case scan_today pt now PRAYERS of
        Inl e \<Rightarrow> Inl e
      | Inr (Some found) \<Rightarrow> Inr found
      | Inr None \<Rightarrow>
          (case add_one_day now of
             Inl e \<Rightarrow> Inl e
           | Inr tomorrow \<Rightarrow>
               (case prayer_datetime pt (date_of tomorrow) ''Fajr'' of
                  Inl e \<Rightarrow> Inl e
                | Inr fajr_time \<Rightarrow> Inr (''Fajr'', fajr_time))))"

text \<open>
  \<^verbatim>\<open>timedelta.total_seconds()\<close> divides the microseconds of the difference by
  \<^verbatim>\<open>10**6\<close> and returns a float: the double nearest to the quotient, a tie going to
  the even mantissa. For positive \<open>a\<close> and \<open>b\<close> that double is \<open>m / 2 ^ n\<close>, where the
  shift \<open>n\<close> brings the quotient between \<open>2 ^ 52\<close> and \<open>2 ^ 53\<close> and \<open>m\<close> is the scaled
  quotient rounded to an integer (\<open>bitlen\<close> is \<^verbatim>\<open>int.bit_length\<close>). Two datetimes are
  less than \<open>2 ^ 59\<close> microseconds apart, so the quotient is never subnormal and never
  overflows. \<^verbatim>\<open>int\<close> then drops the fraction of the double, towards zero.
\<close>

definition round_half_even :: "int \<Rightarrow> int \<Rightarrow> int" where
  "round_half_even a b =
     (let q = a div b; r = a mod b
      in if 2 * r < b then q else if b < 2 * r then q + 1 else if even q then q else q + 1)"

definition scaled :: "int \<Rightarrow> int \<Rightarrow> int \<Rightarrow> int \<times> int" where
  "scaled a b n = (if 0 \<le> n then (a * 2 ^ nat n, b) else (a, b * 2 ^ nat (- n)))"

definition double_shift :: "int \<Rightarrow> int \<Rightarrow> int" where
  "double_shift a b =
     (let n = 52 - bitlen a + bitlen b
      in if 2 ^ 52 * snd (scaled a b n) \<le> fst (scaled a b n) then n else n + 1)"

text \<open>\<^verbatim>\<open>int(a / b)\<close> for positive integers \<open>a\<close> and \<open>b\<close>.\<close>

definition int_truediv :: "int \<Rightarrow> int \<Rightarrow> int" where
  "int_truediv a b =
     (let n = double_shift a b;
          m = round_half_even (fst (scaled a b n)) (snd (scaled a b n))
      in if 0 \<le> n then m div 2 ^ nat n else m * 2 ^ nat (- n))"

text \<open>\<^verbatim>\<open>int((target_time - now).total_seconds())\<close>; the float of a negative
  difference is the negated float of its absolute value.\<close>

definition total_seconds :: "datetime \<Rightarrow> datetime \<Rightarrow> int" where
  "total_seconds now target_time =
     (let delta = target_time - now
      in if 0 < delta then int_truediv delta 1000000
         else if delta < 0 then - int_truediv (- delta) 1000000
         else 0)"

definition get_time_remaining :: "datetime \<Rightarrow> datetime \<Rightarrow> int \<times> int \<times> int" where
  "get_time_remaining now target_time =
     (let total = total_seconds now target_time
      in (total div 3600, (total mod 3600) div 60, total mod 60))"

subsection \<open>The loop of \<^verbatim>\<open>run\<close>\<close>

text \<open>What the timer does to the outside: lines on the console, the azan, sleeping.
  The three forms of the spoken message are kept apart from their wording.\<close>

datatype message =
    HoursAndMinutes int int string
  | Hours int string
  | Minutes int string

datatype event =
    NoUpcoming
  | Countdown string datetime int int int
  | Banner string
  | Azan
  | PrayerTable
  | Sleep nat
  | Announcement message
  | ErrorLog exc
  | Farewell
  | DetectionFailed exc
  | UsingDefault
  | FetchError exc

text \<open>
  One turn of the loop reads the clock twice, in \<^verbatim>\<open>get_next_prayer\<close> and in
  \<^verbatim>\<open>get_time_remaining\<close>. Every call to the outside may raise instead of
  returning (an I/O error, or Ctrl+C while it sleeps or plays): \<open>fault\<close> says which.
\<close>

record tick =
  now_next :: datetime
  now_remaining :: datetime
  fault :: "event \<Rightarrow> exn option"

type_synonym outcome = "event list \<times> timer \<times> exn option"

text \<open>A call to the outside in state \<open>s\<close>, followed by \<open>rest\<close> when it returns.\<close>

definition perform :: "tick \<Rightarrow> event \<Rightarrow> timer \<Rightarrow> outcome \<Rightarrow> outcome" where
  "perform t ev s rest =
     (case fault t ev of
        Some e \<Rightarrow> ([], s, Some e)
      | None \<Rightarrow> (case rest of (evs, s', r) \<Rightarrow> (ev # evs, s', r)))"

text \<open>\<^verbatim>\<open>display_prayer_times\<close> reads all five prayers of the schedule.\<close>

definition display_prayer_times :: "tick \<Rightarrow> timer \<Rightarrow> outcome \<Rightarrow> outcome" where
  "display_prayer_times t s rest =
     (case fault t PrayerTable of
        Some e \<Rightarrow> ([], s, Some e)
      | None \<Rightarrow>
          if list_all (\<lambda>prayer. prayer_times s prayer \<noteq> None) PRAYERS
          then (case rest of (evs, s', r) \<Rightarrow> (PrayerTable # evs, s', r))
          else ([], s, Some (Exception KeyError)))"

definition announcement_message :: "int \<Rightarrow> string \<Rightarrow> message" where
  "announcement_message total_minutes prayer_name =
     (if total_minutes \<ge> 60 then
        (let hours_msg = total_minutes div 60; mins_msg = total_minutes mod 60
         in if mins_msg > 0 then HoursAndMinutes hours_msg mins_msg prayer_name
            else Hours hours_msg prayer_name)
      else Minutes total_minutes prayer_name)"

text \<open>Lines 267 to 279: the prayer time has come.\<close>

definition announce_prayer_time :: "tick \<Rightarrow> timer \<Rightarrow> string \<Rightarrow> outcome" where
  "announce_prayer_time t s prayer_name =
     perform t (Banner prayer_name) s
       (perform t Azan s
          (display_prayer_times t s
             (let s' = s\<lparr>current_prayer_announced := True, announced_intervals := {}\<rparr>
              in perform t (Sleep 60) s' ([], s', None))))"

text \<open>Lines 284 to 297: the announcements before the prayer.\<close>

definition make_announcements :: "tick \<Rightarrow> timer \<Rightarrow> int \<Rightarrow> string \<Rightarrow> outcome" where
  "make_announcements t s total_minutes prayer_name =
     (case should_announce s total_minutes of
        (True, s') \<Rightarrow>
          perform t (Announcement (announcement_message total_minutes prayer_name)) s'
            (perform t (Sleep 1) s' ([], s', None))
      | (False, s') \<Rightarrow> perform t (Sleep 1) s' ([], s', None))"

text \<open>The body of the \<^verbatim>\<open>try\<close>: the events so far, the timer as it was left, and
  the exception that ended the turn, if one did.\<close>

definition run_body :: "timer \<Rightarrow> tick \<Rightarrow> outcome" where
  "run_body s t =
     (case get_next_prayer (prayer_times s) (now_next t) of
        Inl e \<Rightarrow> ([], s, Some (Exception e))
      | Inr (prayer_name, prayer_time) \<Rightarrow>
          if prayer_name = [] then
            perform t NoUpcoming s (perform t (Sleep 60) s ([], s, None))
          else
            (case get_time_remaining (now_remaining t) prayer_time of
               (hours, minutes, seconds) \<Rightarrow>
                 (let total_minutes = hours * 60 + minutes
                  in perform t (Countdown prayer_name prayer_time hours minutes seconds) s
                       (if total_minutes = 0 \<and> seconds = 0 then
                          (if \<not> current_prayer_announced s
                           then announce_prayer_time t s prayer_name
                           else make_announcements t s total_minutes prayer_name)
                        else make_announcements t (s\<lparr>current_prayer_announced := False\<rparr>)
                               total_minutes prayer_name))))"

text \<open>
  The two handlers of the loop. \<^verbatim>\<open>except KeyboardInterrupt\<close> prints the farewell
  and breaks; \<^verbatim>\<open>except Exception\<close> prints the error and sleeps five seconds. Their
  \<^verbatim>\<open>print\<close> and \<^verbatim>\<open>time.sleep\<close> are calls to the outside like the others: one
  that raises (the console is gone, Ctrl+C arrives during the cooldown) is inside no
  \<^verbatim>\<open>try\<close>, and its exception leaves the loop uncaught.
\<close>

datatype control = GoesOn | Stopped | Uncaught exn

definition handlers :: "tick \<Rightarrow> exn \<Rightarrow> event list \<times> control" where
  "handlers t raised =
     (case raised of
        KeyboardInterrupt \<Rightarrow>
          (case fault t Farewell of
             Some x \<Rightarrow> ([], Uncaught x)
           | None \<Rightarrow> ([Farewell], Stopped))
      | Exception e \<Rightarrow>
          (case fault t (ErrorLog e) of
             Some x \<Rightarrow> ([], Uncaught x)
           | None \<Rightarrow>
               (case fault t (Sleep 5) of
                  Some x \<Rightarrow> ([ErrorLog e], Uncaught x)
                | None \<Rightarrow> ([ErrorLog e, Sleep 5], GoesOn))))"

text \<open>One turn: the body of the \<^verbatim>\<open>try\<close>, then the handler of what it raised.\<close>

definition run_iteration :: "timer \<Rightarrow> tick \<Rightarrow> event list \<times> timer \<times> control" where
  "run_iteration s t =
     (case run_body s t of
        (evs, s', None) \<Rightarrow> (evs, s', GoesOn)
      | (evs, s', Some raised) \<Rightarrow>
          (case handlers t raised of (hevs, c) \<Rightarrow> (evs @ hevs, s', c)))"


section \<open>Location and schedule\<close>

text \<open>\<^verbatim>\<open>requests.get(...)\<close> followed by \<^verbatim>\<open>response.json()\<close>: one of the
  two raises (no network, a timeout, a body that is not JSON), or there is data.\<close>

datatype http = Raises exc | Body json

record location =
  latitude :: json
  longitude :: json
  city :: json
  country :: json

definition default_location :: location where
  "default_location =
     \<lparr>latitude = JFloat (214225 / 10000), longitude = JFloat (398262 / 10000),
      city = JStr ''Mecca'', country = JStr ''Saudi Arabia''\<rparr>"

definition detection_failed :: "exc \<Rightarrow> event list \<times> location" where
  "detection_failed e = ([DetectionFailed e, UsingDefault], default_location)"

definition detect_location :: "http \<Rightarrow> event list \<times> location" where
  "detect_location r =
     (case r of
        Raises e \<Rightarrow> detection_failed e
      | Body data \<Rightarrow>
          (case getitem data ''status'' of
             Inl e \<Rightarrow> detection_failed e
           | Inr status \<Rightarrow>
               if eq_str status ''success'' then
                 (case getitem data ''lat'' of
                    Inl e \<Rightarrow> detection_failed e
                  | Inr lat \<Rightarrow>
                 (case getitem data ''lon'' of
                    Inl e \<Rightarrow> detection_failed e
                  | Inr lon \<Rightarrow>
                 (case getitem data ''city'' of
                    Inl e \<Rightarrow> detection_failed e
                  | Inr c \<Rightarrow>
                 (case getitem data ''country'' of
                    Inl e \<Rightarrow> detection_failed e
                  | Inr co \<Rightarrow>
                      ([], \<lparr>latitude = lat, longitude = lon, city = c, country = co\<rparr>)))))
               else ([UsingDefault], default_location)))"

text \<open>The dict comprehension \<^verbatim>\<open>{prayer: timings[prayer] for prayer in self.PRAYERS}\<close>.\<close>

fun timings_of :: "json \<Rightarrow> string list \<Rightarrow> exc + (string \<times> json) list" where
  "timings_of timings [] = Inr []"
| "timings_of timings (prayer # rest) =
     (case getitem timings prayer of
        Inl e \<Rightarrow> Inl e
      | Inr v \<Rightarrow>
          (case timings_of timings rest of
             Inl e \<Rightarrow> Inl e
           | Inr kvs \<Rightarrow> Inr ((prayer, v) # kvs)))"

text \<open>
  How a call of \<^verbatim>\<open>fetch_prayer_times\<close> ends: it returns a dict or \<^verbatim>\<open>None\<close>,
  it leaves the process through \<^verbatim>\<open>sys.exit\<close>, or an exception escapes it (the
  configuration is read before the \<^verbatim>\<open>try\<close>).
\<close>

datatype fetched = Returned "(string \<rightharpoonup> json) option" | SysExit nat | Escaped exc

definition fetch_failed :: "exc \<Rightarrow> event list \<times> fetched" where
  "fetch_failed e = ([FetchError e], SysExit 1)"

definition fetch_prayer_times :: "(string \<rightharpoonup> json) \<Rightarrow> http \<Rightarrow> event list \<times> fetched" where
  "fetch_prayer_times config r =
     (if config ''latitude'' = None \<or> config ''longitude'' = None \<or> config ''method'' = None
      then ([], Escaped KeyError)
      else
        (case r of
           Raises e \<Rightarrow> fetch_failed e
         | Body data \<Rightarrow>
             (case getitem data ''code'' of
                Inl e \<Rightarrow> fetch_failed e
              | Inr code \<Rightarrow>
                  if eq_int code 200 then
                    (case getitem data ''data'' of
                       Inl e \<Rightarrow> fetch_failed e
                     | Inr d \<Rightarrow>
                    (case getitem d ''timings'' of
                       Inl e \<Rightarrow> fetch_failed e
                     | Inr timings \<Rightarrow>
                    (case timings_of timings PRAYERS of
                       Inl e \<Rightarrow> fetch_failed e
                     | Inr kvs \<Rightarrow> ([], Returned (Some (map_of kvs))))))
                  else ([], Returned None))))"

text \<open>
  The start of \<^verbatim>\<open>run\<close>, before the loop: the schedule is fetched, stored and
  displayed, outside every \<^verbatim>\<open>try\<close>. The process is then in its loop, or has
  exited with a status, or has died of an exception nobody caught.
\<close>

datatype started = Looping timer | Exited nat | Died exc

definition run_start :: "(string \<rightharpoonup> json) \<Rightarrow> http \<Rightarrow> event list \<times> started" where
  "run_start config r =
     (case fetch_prayer_times config r of
        (evs, SysExit n) \<Rightarrow> (evs, Exited n)
      | (evs, Escaped e) \<Rightarrow> (evs, Died e)
      | (evs, Returned res) \<Rightarrow>
          if config ''city'' = None \<or> config ''country'' = None then (evs, Died KeyError)
          else
            (case res of
               None \<Rightarrow> (evs, Died TypeError)
             | Some pt \<Rightarrow>
                 if list_all (\<lambda>prayer. pt prayer \<noteq> None) PRAYERS
                 then (evs @ [PrayerTable],
                       Looping \<lparr>prayer_times = pt, announced_intervals = {},
                                current_prayer_announced = False\<rparr>)
                 else (evs, Died KeyError)))"

section \<open>Turns to compute with\<close>

text \<open>A timer with the example schedule, on which the 30-minute and the 5-minute
  announcements have been made.\<close>

definition example_timer :: timer where
  "example_timer = \<lparr>prayer_times = example_schedule, announced_intervals = {30, 5},
                     current_prayer_announced = False\<rparr>"

text \<open>A turn that starts 0.6 seconds before Maghrib (19:00) and in which every call to
  the outside returns.\<close>

definition crossing_tick :: tick where
  "crossing_tick = \<lparr>now_next = mk_datetime 739000 18 59 59 400000,
                     now_remaining = mk_datetime 739000 18 59 59 400050,
                     fault = (\<lambda>ev. None)\<rparr>"

text \<open>A turn at 18:00 in which every call to the outside returns.\<close>

definition quiet_tick :: tick where
  "quiet_tick = \<lparr>now_next = mk_datetime 739000 18 0 0 0,
                  now_remaining = mk_datetime 739000 18 0 0 20,
                  fault = (\<lambda>ev. None)\<rparr>"






text \<open>The configuration that \<^verbatim>\<open>create_default_config\<close> writes for the default
  location.\<close>

definition example_config :: "string \<rightharpoonup> json" where
  "example_config =
     map_of [(''latitude'', JFloat (214225 / 10000)), (''longitude'', JFloat (398262 / 10000)),
             (''city'', JStr ''Mecca''), (''country'', JStr ''Saudi Arabia''),
             (''method'', JInt 2), (''azan_file'', JStr ''azan.mp3''),
             (''use_default_azan'', JBool True), (''announcement_voice'', JBool True)]"

text \<open>An answer of the prayer-times service that carries an error code and no timings.\<close>

definition bad_request :: http where
  "bad_request =
     Body (JObj [(''code'', JInt 400), (''status'', JStr ''BAD_REQUEST''),
                 (''data'', JStr ''Invalid date or unable to understand it.'')])"

section \<open>Dates and times of day\<close>

lemma digit_val_le: "is_digit c \<Longrightarrow> digit_val c \<le> 9"
  unfolding is_digit_def digit_val_def by arith

lemma match_H_range: "match_H str = Some (h, r) \<Longrightarrow> h \<le> 23"
proof (induction str rule: match_H.induct)
  case (1 a b rest)
  then show ?case
    using digit_val_le [of a] digit_val_le [of b]
    by (auto simp: digit_val_def split: if_splits)
next
  case (2 a)
  then show ?case using digit_val_le [of a] by (auto split: if_splits)
next
  case 3
  then show ?case by simp
qed

lemma match_M_range: "match_M str = Some (m, r) \<Longrightarrow> m \<le> 59"
proof (induction str rule: match_M.induct)
  case (1 a b rest)
  then show ?case
    using digit_val_le [of a] digit_val_le [of b]
    by (auto split: if_splits)
next
  case (2 a)
  then show ?case using digit_val_le [of a] by (auto split: if_splits)
next
  case 3
  then show ?case by simp
qed

lemma strptime_HM_range:
  assumes "strptime_HM str = Inr (h, m)"
  shows "h \<le> 23 \<and> m \<le> 59"
proof -
  from assms obtain r1 r2 where "match_H str = Some (h, r1)" "match_M r2 = Some (m, [])"
    by (auto simp: strptime_HM_def split: option.splits list.splits if_splits)
  then show ?thesis
    using match_H_range match_M_range by blast
qed

lemma date_of_mk_datetime:
  assumes "0 \<le> h" "h \<le> 23" "0 \<le> m" "m \<le> 59" "0 \<le> s" "s \<le> 59" "0 \<le> us" "us < 1000000"
  shows "date_of (mk_datetime d h m s us) = d"
proof -
  let ?x = "((h * 60 + m) * 60 + s) * 1000000 + us"
  have "0 \<le> ?x" using assms by simp
  moreover have "?x < DAY" using assms unfolding DAY_def by (simp add: algebra_simps)
  moreover have "mk_datetime d h m s us = ?x + d * DAY" by (simp add: mk_datetime_def)
  ultimately show ?thesis by (simp add: date_of_def DAY_def)
qed

lemma date_of_at_date:
  "fst hm \<le> 23 \<Longrightarrow> snd hm \<le> 59 \<Longrightarrow> date_of (at_date d hm) = d"
  unfolding at_date_def by (rule date_of_mk_datetime) simp_all

lemma date_of_add_DAY: "date_of (t + DAY) = date_of t + 1"
  by (simp add: date_of_def DAY_def)

lemma date_bounds: "date_of t * DAY \<le> t \<and> t < (date_of t + 1) * DAY"
proof -
  have "t = date_of t * DAY + t mod DAY" by (simp add: date_of_def)
  moreover have "0 \<le> t mod DAY \<and> t mod DAY < DAY" by (simp add: DAY_def)
  ultimately show ?thesis by (simp add: algebra_simps) 
qed

lemma at_date_ge: "d * DAY \<le> at_date d hm"
  by (simp add: at_date_def mk_datetime_def)

lemma at_date_next: "at_date (d + 1) hm = at_date d hm + DAY"
  by (simp add: at_date_def mk_datetime_def algebra_simps)

lemma tomorrow_later: "t < at_date (date_of t + 1) hm"
  using date_bounds [of t] at_date_ge [of "date_of t + 1" hm] by linarith

section \<open>Announcement thresholds\<close>

lemma fst_should_announce:
  "fst (should_announce s m) =
     ((m \<in> set ANNOUNCEMENT_INTERVALS \<or> (1 \<le> m \<and> m < 20)) \<and> m \<notin> announced_intervals s)"
  unfolding should_announce_def by auto

lemma announced_should_announce:
  "announced_intervals (snd (should_announce s m)) =
     (if m \<in> set ANNOUNCEMENT_INTERVALS \<or> (1 \<le> m \<and> m < 20)
      then insert m (announced_intervals s) else announced_intervals s)"
  unfolding should_announce_def by auto

lemma flag_should_announce:
  "current_prayer_announced (snd (should_announce s m)) = current_prayer_announced s"
  unfolding should_announce_def by auto

lemma fst_announce_calls_Cons:
  "fst (announce_calls s (m # ms)) =
     fst (should_announce s m) # fst (announce_calls (snd (should_announce s m)) ms)"
  by (simp add: case_prod_unfold)

lemma announce_calls_nth:
  "i < length ms \<Longrightarrow>
   fst (announce_calls s ms) ! i =
     ((ms ! i \<in> set ANNOUNCEMENT_INTERVALS \<or> (1 \<le> ms ! i \<and> ms ! i < 20))
      \<and> ms ! i \<notin> announced_intervals s \<and> ms ! i \<notin> set (take i ms))"
proof (induction ms arbitrary: s i)
  case Nil
  then show ?case by simp
next
  case (Cons m ms)
  show ?case
  proof (cases i)
    case 0
    then show ?thesis
      by (simp only: fst_announce_calls_Cons nth_Cons_0 fst_should_announce take_0 list.set
          empty_iff not_False_eq_True simp_thms)
  next
    case (Suc j)
    with Cons.prems have j: "j < length ms" by simp
    have "fst (announce_calls s (m # ms)) ! i
            = fst (announce_calls (snd (should_announce s m)) ms) ! j"
      using Suc by (simp only: fst_announce_calls_Cons nth_Cons_Suc)
    also have "\<dots> =
        ((ms ! j \<in> set ANNOUNCEMENT_INTERVALS \<or> (1 \<le> ms ! j \<and> ms ! j < 20))
         \<and> ms ! j \<notin> announced_intervals (snd (should_announce s m))
         \<and> ms ! j \<notin> set (take j ms))"
      by (rule Cons.IH [OF j])
    also have "\<dots> =
        (((m # ms) ! i \<in> set ANNOUNCEMENT_INTERVALS
            \<or> (1 \<le> (m # ms) ! i \<and> (m # ms) ! i < 20))
         \<and> (m # ms) ! i \<notin> announced_intervals s \<and> (m # ms) ! i \<notin> set (take i (m # ms)))"
      unfolding Suc announced_should_announce by auto
    finally show ?thesis .
  qed
qed

text \<open>
  C1. A cycle starts with no threshold fired. Among the calls of one cycle, whatever
  other values are asked in between, a call with a ladder value or with a minute from
  1 to 19 answers true exactly when no earlier call of the cycle had the same value:
  true the first time, false every time after.
\<close>

theorem should_announce_once_per_cycle:
  assumes "announced_intervals s = {}"
    and "i < length ms"
    and "ms ! i \<in> set ANNOUNCEMENT_INTERVALS \<or> (1 \<le> ms ! i \<and> ms ! i < 20)"
  shows "fst (announce_calls s ms) ! i = (ms ! i \<notin> set (take i ms))"
  using assms by (simp add: announce_calls_nth)

theorem should_announce_once_per_cycle_witness:
  "announced_intervals init_timer = {}
   \<and> fst (announce_calls init_timer [30, 5, 30, 7, 5]) ! 0 = True
   \<and> fst (announce_calls init_timer [30, 5, 30, 7, 5]) ! 1 = True
   \<and> fst (announce_calls init_timer [30, 5, 30, 7, 5]) ! 2 = False
   \<and> fst (announce_calls init_timer [30, 5, 30, 7, 5]) ! 4 = False"
  using should_announce_once_per_cycle [of init_timer 0 "[30, 5, 30, 7, 5]"]
    should_announce_once_per_cycle [of init_timer 1 "[30, 5, 30, 7, 5]"]
    should_announce_once_per_cycle [of init_timer 2 "[30, 5, 30, 7, 5]"]
    should_announce_once_per_cycle [of init_timer 4 "[30, 5, 30, 7, 5]"]
  by (simp add: init_timer_def ANNOUNCEMENT_INTERVALS_def)

text \<open>
  C5. For 0, for every value from 181 on, and for every value from 20 on that is not
  on the ladder, \<^verbatim>\<open>should_announce\<close> answers false and leaves the timer as it was,
  whatever has been announced before.
\<close>

theorem should_announce_never:
  assumes "m = 0 \<or> 181 \<le> m \<or> (20 \<le> m \<and> m \<notin> set ANNOUNCEMENT_INTERVALS)"
  shows "should_announce s m = (False, s)"
proof -
  have ladder: "m \<notin> set ANNOUNCEMENT_INTERVALS"
    using assms
  proof (elim disjE)
    assume "m = 0"
    then show ?thesis by (simp add: ANNOUNCEMENT_INTERVALS_def)
  next
    assume "181 \<le> m"
    then show ?thesis by (simp add: ANNOUNCEMENT_INTERVALS_def)
  next
    assume "20 \<le> m \<and> m \<notin> set ANNOUNCEMENT_INTERVALS"
    then show ?thesis by simp
  qed
  have minute: "\<not> (1 \<le> m \<and> m < 20)"
    using assms by linarith
  show ?thesis
    using ladder minute by (simp only: should_announce_def if_False)
qed

theorem should_announce_never_witness:
  "should_announce init_timer 0 = (False, init_timer)
   \<and> (181::int) \<le> 200 \<and> should_announce init_timer 200 = (False, init_timer)
   \<and> (20::int) \<le> 25 \<and> 25 \<notin> set ANNOUNCEMENT_INTERVALS
   \<and> should_announce init_timer 25 = (False, init_timer)"
  using should_announce_never [of 0 init_timer] should_announce_never [of 200 init_timer]
    should_announce_never [of 25 init_timer]
  by (simp add: ANNOUNCEMENT_INTERVALS_def)

section \<open>Time remaining\<close>

lemma bitlen_eqI: "0 < w \<Longrightarrow> 2 ^ nat (w - 1) \<le> x \<Longrightarrow> x < 2 ^ nat w \<Longrightarrow> bitlen x = w"
  by (rule antisym) (auto simp: bitlen_le_iff_power bitlen_ge_iff_power nat_diff_distrib)

lemma bitlen_million: "bitlen 1000000 = 20"
  by (rule bitlen_eqI) simp_all

text \<open>With a mantissa step of at most \<open>2 ^ -19\<close> seconds, less than two microseconds,
  the nearest double of a count of microseconds never reaches the next whole second.\<close>

lemma round_half_even_scaled:
  assumes "0 \<le> d" "524288 \<le> P"
  shows "round_half_even (d * P) 1000000 div P = d div 1000000"
proof -
  define q where "q = d div 1000000"
  define r where "r = d mod 1000000"
  define X where "X = r * P"
  define u where "u = X div 1000000"
  define v where "v = X mod 1000000"
  have r: "0 \<le> r" "r \<le> 999999" by (simp_all add: r_def)
  have d: "d = q * 1000000 + r" by (simp add: q_def r_def)
  have X0: "0 \<le> X" using r assms by (simp add: X_def)
  have "r * P \<le> 999999 * P" using r assms by (intro mult_right_mono) simp_all
  then have X1: "X \<le> 1000000 * P - P" by (simp add: X_def)
  have X: "X = u * 1000000 + v" by (simp add: u_def v_def)
  have v: "0 \<le> v" "v < 1000000" by (simp_all add: v_def)
  have u0: "0 \<le> u" using X0 by (simp add: u_def)
  have dP: "d * P = X + (q * P) * 1000000" by (simp add: d X_def algebra_simps)
  have quot: "(d * P) div 1000000 = q * P + u"
    unfolding dP u_def by simp
  have rem: "(d * P) mod 1000000 = v"
    unfolding dP v_def by simp
  define w where "w = (if 2 * v < 1000000 then u else if 1000000 < 2 * v then u + 1
                        else if even (q * P + u) then u else u + 1)"
  have rhe: "round_half_even (d * P) 1000000 = q * P + w"
    by (simp add: round_half_even_def quot rem w_def Let_def)
  have w0: "0 \<le> w" using u0 by (simp add: w_def)
  have w1: "w < P"
  proof (cases "2 * v < 1000000")
    case True
    then have "w = u" by (simp add: w_def)
    moreover have "u < P" using X X1 v assms by linarith
    ultimately show ?thesis by simp
  next
    case False
    then have "w \<le> u + 1" by (simp add: w_def)
    moreover have "u + 1 < P" using False X X1 v assms by linarith
    ultimately show ?thesis by simp
  qed
  have "(q * P + w) div P = q"
    using w0 w1 assms by (simp add: div_pos_pos_trivial)
  then show ?thesis by (simp add: rhe q_def)
qed

lemma double_shift_near:
  assumes "0 < d" "d < 2 ^ 34 * 1000000"
  shows "19 \<le> double_shift d 1000000"
proof -
  have "d < 2 ^ nat 54" using assms by simp
  then have len: "bitlen d \<le> 54" by (simp add: bitlen_le_iff_power)
  show ?thesis
  proof (cases "bitlen d = 54")
    case True
    have "\<not> 2 ^ 52 * snd (scaled d 1000000 18) \<le> fst (scaled d 1000000 18)"
      using assms by (simp add: scaled_def)
    then show ?thesis
      by (simp add: double_shift_def bitlen_million True Let_def)
  next
    case False
    with len have "bitlen d \<le> 53" by simp
    then show ?thesis
      by (simp add: double_shift_def bitlen_million Let_def)
  qed
qed

lemma int_truediv_near:
  assumes "0 < d" "d < 2 ^ 34 * 1000000"
  shows "int_truediv d 1000000 = d div 1000000"
proof -
  define n where "n = double_shift d 1000000"
  have n: "19 \<le> n" unfolding n_def using assms by (rule double_shift_near)
  then have "(2::int) ^ 19 \<le> 2 ^ nat n"
    by (intro power_increasing) simp_all
  then have P: "524288 \<le> (2::int) ^ nat n" by simp
  have "int_truediv d 1000000 = round_half_even (d * 2 ^ nat n) 1000000 div 2 ^ nat n"
    using n by (simp add: int_truediv_def n_def [symmetric] scaled_def Let_def)
  also have "\<dots> = d div 1000000"
    using assms P by (intro round_half_even_scaled) simp_all
  finally show ?thesis .
qed

lemma total_seconds_near:
  assumes "now < instant" "instant - now < 2 ^ 34 * 1000000"
  shows "total_seconds now instant = (instant - now) div 1000000"
  using assms by (simp add: total_seconds_def int_truediv_near)

lemma get_time_remaining_near:
  assumes "now < instant" "instant - now < 2 ^ 34 * 1000000"
  shows "get_time_remaining now instant =
           ((instant - now) div 1000000 div 3600,
            ((instant - now) div 1000000 mod 3600) div 60,
            (instant - now) div 1000000 mod 60)"
  by (simp add: get_time_remaining_def total_seconds_near [OF assms] Let_def)

lemma hms_bounds:
  fixes total :: int
  assumes "0 \<le> total"
  shows "0 \<le> total div 3600 \<and> 0 \<le> (total mod 3600) div 60 \<and> (total mod 3600) div 60 < 60
         \<and> 0 \<le> total mod 60 \<and> total mod 60 < 60"
proof -
  have "0 \<le> total mod 3600" "total mod 3600 < 60 * 60" by simp_all
  then have "0 \<le> (total mod 3600) div 60" "(total mod 3600) div 60 < 60"
    by (simp_all add: div_less_iff_less_mult)
  then show ?thesis using assms by simp
qed

lemma hms_sum:
  fixes total :: int
  shows "(total div 3600) * 3600 + ((total mod 3600) div 60) * 60 + total mod 60 = total"
proof -
  have "total mod 3600 mod 60 = total mod 60"
    by (simp add: mod_mod_cancel)
  then have "((total mod 3600) div 60) * 60 + total mod 60 = total mod 3600"
    using div_mult_mod_eq [of "total mod 3600" 60] by simp
  then show ?thesis
    using div_mult_mod_eq [of total 3600] by linarith
qed

text \<open>
  C4, as amended. When the target instant is later than \<open>now\<close> by less than \<open>2 ^ 34\<close>
  seconds (about 544 years), the whole seconds between them are
  \<open>total = (instant - now) div 1000000\<close>, and \<^verbatim>\<open>get_time_remaining\<close> returns
  \<open>(total div 3600, (total mod 3600) div 60, total mod 60)\<close>: three non-negative
  integers, minutes and seconds below 60, that add up to \<open>total\<close>. From 12:00:00 to
  12:00:05 it is (0, 0, 5); from 10:00:00 to 12:30:15 it is (2, 30, 15).
\<close>

theorem get_time_remaining_decomposition:
  "(now < instant \<and> instant - now < 2 ^ 34 * 1000000 \<longrightarrow>
        total_seconds now instant = (instant - now) div 1000000
      \<and> 0 \<le> total_seconds now instant
      \<and> get_time_remaining now instant =
          (total_seconds now instant div 3600,
           (total_seconds now instant mod 3600) div 60,
           total_seconds now instant mod 60)
      \<and> (case get_time_remaining now instant of
            (hours, minutes, seconds) \<Rightarrow>
              0 \<le> hours \<and> 0 \<le> minutes \<and> minutes < 60 \<and> 0 \<le> seconds \<and> seconds < 60
              \<and> hours * 3600 + minutes * 60 + seconds = total_seconds now instant))
   \<and> get_time_remaining (mk_datetime d 12 0 0 0) (mk_datetime d 12 0 5 0) = (0, 0, 5)
   \<and> get_time_remaining (mk_datetime d 10 0 0 0) (mk_datetime d 12 30 15 0) = (2, 30, 15)"
proof (intro conjI impI)
  assume near: "now < instant \<and> instant - now < 2 ^ 34 * 1000000"
  show total: "total_seconds now instant = (instant - now) div 1000000"
    using near by (simp add: total_seconds_near)
  from near have "0 \<le> instant - now" by simp
  then show nonneg: "0 \<le> total_seconds now instant"
    unfolding total by simp
  show remaining: "get_time_remaining now instant =
      (total_seconds now instant div 3600,
       (total_seconds now instant mod 3600) div 60,
       total_seconds now instant mod 60)"
    by (simp add: get_time_remaining_def Let_def)
  show "case get_time_remaining now instant of
          (hours, minutes, seconds) \<Rightarrow>
            0 \<le> hours \<and> 0 \<le> minutes \<and> minutes < 60 \<and> 0 \<le> seconds \<and> seconds < 60
            \<and> hours * 3600 + minutes * 60 + seconds = total_seconds now instant"
    unfolding remaining prod.case
    using hms_bounds [OF nonneg] hms_sum [of "total_seconds now instant"] by blast
next
  show "get_time_remaining (mk_datetime d 12 0 0 0) (mk_datetime d 12 0 5 0) = (0, 0, 5)"
    by (simp add: get_time_remaining_near mk_datetime_def)
next
  show "get_time_remaining (mk_datetime d 10 0 0 0) (mk_datetime d 12 30 15 0) = (2, 30, 15)"
    by (simp add: get_time_remaining_near mk_datetime_def)
qed

theorem get_time_remaining_decomposition_witness:
  "mk_datetime 739000 18 59 58 250000 < mk_datetime 739000 20 30 0 0
   \<and> mk_datetime 739000 20 30 0 0 - mk_datetime 739000 18 59 58 250000 < 2 ^ 34 * 1000000
   \<and> get_time_remaining (mk_datetime 739000 18 59 58 250000) (mk_datetime 739000 20 30 0 0)
       = (1, 30, 1)
   \<and> get_time_remaining (mk_datetime 739000 12 0 0 0) (mk_datetime 739000 12 0 5 0) = (0, 0, 5)"
  using get_time_remaining_decomposition
    [of "mk_datetime 739000 18 59 58 250000" "mk_datetime 739000 20 30 0 0" 739000]
  by (simp add: mk_datetime_def DAY_def)

text \<open>From 1000-01-01 00:00:00.000001 to 2000-01-01 00:00:00 there are 31556908799
  whole seconds, which decompose into (8765807, 59, 59); the float holds 31556908800.\<close>

theorem get_time_remaining_far_counterexample:
  "mk_datetime 364877 0 0 0 1 < mk_datetime 730119 0 0 0 0
   \<and> (mk_datetime 730119 0 0 0 0 - mk_datetime 364877 0 0 0 1) div 1000000 = 31556908799
   \<and> ((31556908799 :: int) div 3600, ((31556908799 :: int) mod 3600) div 60,
        (31556908799 :: int) mod 60) = (8765807, 59, 59)
   \<and> get_time_remaining (mk_datetime 364877 0 0 0 1) (mk_datetime 730119 0 0 0 0)
       = (8765808, 0, 0)"
proof -
  have delta: "mk_datetime 730119 0 0 0 0 - mk_datetime 364877 0 0 0 1 = 31556908799999999"
    by (simp add: mk_datetime_def DAY_def)
  have len: "bitlen 31556908799999999 = 55"
    by (rule bitlen_eqI) simp_all
  have "int_truediv 31556908799999999 1000000 = 31556908800"
    by (simp add: int_truediv_def double_shift_def len bitlen_million scaled_def
        round_half_even_def Let_def)
  then have "get_time_remaining (mk_datetime 364877 0 0 0 1) (mk_datetime 730119 0 0 0 0)
       = (8765808, 0, 0)"
    by (simp add: get_time_remaining_def total_seconds_def delta)
  then show ?thesis
    by (simp add: delta) (simp add: mk_datetime_def DAY_def)
qed

section \<open>The next prayer\<close>

lemma prayer_datetime_parsed:
  "pt p = Some (JStr str) \<Longrightarrow> strptime_HM str = Inr hm \<Longrightarrow>
   prayer_datetime pt d p = Inr (at_date d hm)"
  by (simp add: prayer_datetime_def)

lemma scan_today_find:
  assumes "\<forall>p\<in>set ps. \<exists>str. pt p = Some (JStr str) \<and> strptime_HM str = Inr (hm p)"
  shows "scan_today pt now ps =
     Inr (map_option (\<lambda>p. (p, at_date (date_of now) (hm p)))
            (find (\<lambda>p. now < at_date (date_of now) (hm p)) ps))"
  using assms
proof (induction ps)
  case Nil
  then show ?case by simp
next
  case (Cons p ps)
  from Cons.prems obtain str where "pt p = Some (JStr str)" "strptime_HM str = Inr (hm p)"
    by auto
  then have p: "prayer_datetime pt (date_of now) p = Inr (at_date (date_of now) (hm p))"
    by (rule prayer_datetime_parsed)
  from Cons have "scan_today pt now ps =
     Inr (map_option (\<lambda>p. (p, at_date (date_of now) (hm p)))
            (find (\<lambda>p. now < at_date (date_of now) (hm p)) ps))"
    by simp
  then show ?case by (simp add: p)
qed

lemma scan_today_found:
  "scan_today pt now ps = Inr (Some (p, t)) \<Longrightarrow> p \<in> set ps \<and> now < t"
  by (induction ps) (auto split: sum.splits if_splits)

lemma Fajr_in_PRAYERS: "''Fajr'' \<in> set PRAYERS"
  by (simp add: PRAYERS_def)

lemma PRAYERS_nonempty: "p \<in> set PRAYERS \<Longrightarrow> p \<noteq> []"
  by (auto simp: PRAYERS_def)

lemma add_one_day_Inr: "add_one_day t = Inr t' \<Longrightarrow> t' = t + DAY"
  by (simp add: add_one_day_def split: if_splits)

lemma prayer_datetime_Inr:
  "prayer_datetime pt d p = Inr t \<Longrightarrow> \<exists>hm. t = at_date d hm"
  by (auto simp: prayer_datetime_def split: option.splits json.splits sum.splits)

lemma get_next_prayer_result:
  assumes "get_next_prayer pt now = Inr (p, t)"
  shows "p \<in> set PRAYERS \<and> now < t"
proof (cases "scan_today pt now PRAYERS")
  case (Inl e)
  with assms show ?thesis by (simp add: get_next_prayer_def)
next
  case (Inr found)
  show ?thesis
  proof (cases found)
    case (Some pt')
    with Inr assms have "scan_today pt now PRAYERS = Inr (Some (p, t))"
      by (simp add: get_next_prayer_def)
    then show ?thesis by (rule scan_today_found)
  next
    case None
    with Inr assms obtain tomorrow where
      tomorrow: "add_one_day now = Inr tomorrow"
      and fajr: "prayer_datetime pt (date_of tomorrow) ''Fajr'' = Inr t" and p: "p = ''Fajr''"
      by (auto simp: get_next_prayer_def split: sum.splits)
    from tomorrow have "date_of tomorrow = date_of now + 1"
      using add_one_day_Inr date_of_add_DAY by blast
    with fajr obtain hm where "t = at_date (date_of now + 1) hm"
      using prayer_datetime_Inr by fastforce
    then show ?thesis
      using p Fajr_in_PRAYERS tomorrow_later by simp
  qed
qed

lemma get_next_prayer_find:
  assumes wf: "\<forall>p\<in>set PRAYERS. \<exists>str. pt p = Some (JStr str) \<and> strptime_HM str = Inr (hm p)"
    and range: "(\<exists>p\<in>set PRAYERS. now < at_date (date_of now) (hm p))
                  \<or> date_of now + 1 < MAXORDINAL"
  shows "get_next_prayer pt now =
     (case find (\<lambda>p. now < at_date (date_of now) (hm p)) PRAYERS of
        Some p \<Rightarrow> Inr (p, at_date (date_of now) (hm p))
      | None \<Rightarrow> Inr (''Fajr'', at_date (date_of now + 1) (hm ''Fajr'')))"
proof (cases "find (\<lambda>p. now < at_date (date_of now) (hm p)) PRAYERS")
  case (Some p)
  then show ?thesis
    by (simp add: get_next_prayer_def scan_today_find [OF wf])
next
  case None
  then have "\<not> (\<exists>p\<in>set PRAYERS. now < at_date (date_of now) (hm p))"
    by (simp add: find_None_iff)
  with range have "date_of now + 1 < MAXORDINAL" by blast
  then have tomorrow: "add_one_day now = Inr (now + DAY)"
    by (simp add: add_one_day_def date_of_add_DAY)
  from wf Fajr_in_PRAYERS obtain str where
    "pt ''Fajr'' = Some (JStr str)" "strptime_HM str = Inr (hm ''Fajr'')"
    by blast
  then have "prayer_datetime pt (date_of now + 1) ''Fajr''
               = Inr (at_date (date_of now + 1) (hm ''Fajr''))"
    by (rule prayer_datetime_parsed)
  then show ?thesis
    using None tomorrow
    by (simp add: get_next_prayer_def scan_today_find [OF wf] date_of_add_DAY)
qed

lemma example_schedule_times:
  "\<forall>p\<in>set PRAYERS. \<exists>str. example_schedule p = Some (JStr str) \<and>
     strptime_HM str =
       Inr ((\<lambda>p. if p = ''Fajr'' then (5, 0) else if p = ''Dhuhr'' then (12, 30)
                  else if p = ''Asr'' then (16, 0) else if p = ''Maghrib'' then (19, 0)
                  else (20, 30)) p)"
  by (simp add: PRAYERS_def example_schedule_def strptime_HM_def is_digit_def digit_val_def)

text \<open>
  C3, as amended. Let every one of the five prayers have a time of day \<open>hm p\<close> in the schedule, and
  let \<open>now\<close> have a prayer still ahead today or a tomorrow (a date after 9999-12-31 does
  not exist). Then \<^verbatim>\<open>get_next_prayer\<close> returns the first prayer, in the order Fajr,
  Dhuhr, Asr, Maghrib, Isha, whose time on today's date is strictly after \<open>now\<close>, with
  that instant; when there is none, all five being at or before \<open>now\<close>, it returns Fajr
  at its time on tomorrow's date. With the example schedule, at 23:00 of any day it
  returns Fajr at 05:00 of the next day.
\<close>

theorem get_next_prayer_first_later:
  assumes "\<forall>p\<in>set PRAYERS. \<exists>str. pt p = Some (JStr str) \<and> strptime_HM str = Inr (hm p)"
    and "(\<exists>p\<in>set PRAYERS. now < at_date (date_of now) (hm p)) \<or> date_of now + 1 < MAXORDINAL"
  shows "get_next_prayer pt now =
           (case find (\<lambda>p. now < at_date (date_of now) (hm p)) PRAYERS of
              Some p \<Rightarrow> Inr (p, at_date (date_of now) (hm p))
            | None \<Rightarrow> Inr (''Fajr'', at_date (date_of now + 1) (hm ''Fajr'')))
         \<and> (d + 1 < MAXORDINAL \<longrightarrow>
              get_next_prayer example_schedule (mk_datetime d 23 0 0 0)
                = Inr (''Fajr'', mk_datetime (d + 1) 5 0 0 0))"
proof (intro conjI impI)
  show "get_next_prayer pt now =
           (case find (\<lambda>p. now < at_date (date_of now) (hm p)) PRAYERS of
              Some p \<Rightarrow> Inr (p, at_date (date_of now) (hm p))
            | None \<Rightarrow> Inr (''Fajr'', at_date (date_of now + 1) (hm ''Fajr'')))"
    using assms by (rule get_next_prayer_find)
next
  assume d: "d + 1 < MAXORDINAL"
  have today: "date_of (mk_datetime d 23 0 0 0) = d"
    by (rule date_of_mk_datetime) simp_all
  show "get_next_prayer example_schedule (mk_datetime d 23 0 0 0)
          = Inr (''Fajr'', mk_datetime (d + 1) 5 0 0 0)"
    using d get_next_prayer_find
      [OF example_schedule_times, of "mk_datetime d 23 0 0 0", unfolded today]
    by (simp add: PRAYERS_def at_date_def mk_datetime_def DAY_def)
qed

theorem get_next_prayer_first_later_witness:
  "get_next_prayer example_schedule (mk_datetime 739000 18 0 0 0)
     = Inr (''Maghrib'', mk_datetime 739000 19 0 0 0)
   \<and> get_next_prayer example_schedule (mk_datetime 739000 19 0 0 0)
     = Inr (''Isha'', mk_datetime 739000 20 30 0 0)
   \<and> get_next_prayer example_schedule (mk_datetime 739000 23 0 0 0)
     = Inr (''Fajr'', mk_datetime 739001 5 0 0 0)"
proof -
  have d: "date_of (mk_datetime 739000 18 0 0 0) = 739000"
    "date_of (mk_datetime 739000 19 0 0 0) = 739000"
    "date_of (mk_datetime 739000 23 0 0 0) = 739000"
    by (simp_all add: date_of_def mk_datetime_def DAY_def)
  have range: "739000 + 1 < MAXORDINAL"
    by (simp add: MAXORDINAL_def)
  show ?thesis
    using range
      get_next_prayer_first_later
        [OF example_schedule_times, of "mk_datetime 739000 18 0 0 0" 739000, unfolded d]
      get_next_prayer_first_later
        [OF example_schedule_times, of "mk_datetime 739000 19 0 0 0" 739000, unfolded d]
      get_next_prayer_first_later
        [OF example_schedule_times, of "mk_datetime 739000 23 0 0 0" 739000, unfolded d]
    by (simp add: PRAYERS_def at_date_def mk_datetime_def DAY_def)
qed

text \<open>On 9999-12-31 at 23:00, after Isha, there is no tomorrow to return Fajr on.\<close>

theorem get_next_prayer_last_day_counterexample:
  "date_of (mk_datetime 3652058 23 0 0 0) + 1 = MAXORDINAL
   \<and> get_next_prayer example_schedule (mk_datetime 3652058 23 0 0 0) = Inl OverflowError"
proof -
  have d: "date_of (mk_datetime 3652058 23 0 0 0) = 3652058"
    by (simp add: date_of_def mk_datetime_def DAY_def)
  have "scan_today example_schedule (mk_datetime 3652058 23 0 0 0) PRAYERS = Inr None"
    unfolding scan_today_find [OF example_schedule_times] d
    by (simp add: PRAYERS_def at_date_def mk_datetime_def DAY_def)
  moreover have "add_one_day (mk_datetime 3652058 23 0 0 0) = Inl OverflowError"
    by (simp add: add_one_day_def date_of_add_DAY d MAXORDINAL_def)
  ultimately show ?thesis
    by (simp add: get_next_prayer_def d MAXORDINAL_def)
qed

section \<open>One turn of the loop\<close>


lemma perform_ok:
  "fault t ev = None \<Longrightarrow> perform t ev s (evs, s', r) = (ev # evs, s', r)"
  by (simp add: perform_def)

lemma perform_cases:
  "(\<exists>e. fault t ev = Some e \<and> perform t ev s rest = ([], s, Some e)) \<or>
   (fault t ev = None \<and> perform t ev s rest = (ev # fst rest, snd rest))"
  by (cases "fault t ev"; cases rest) (simp_all add: perform_def)

lemma perform_events: "set (fst (perform t ev s rest)) \<subseteq> insert ev (set (fst rest))"
  using perform_cases [of t ev s rest] by auto

lemma display_cases:
  "(\<exists>e. display_prayer_times t s rest = ([], s, Some e)) \<or>
   (fault t PrayerTable = None \<and> list_all (\<lambda>prayer. prayer_times s prayer \<noteq> None) PRAYERS
      \<and> display_prayer_times t s rest = (PrayerTable # fst rest, snd rest))"
  by (cases "fault t PrayerTable"; cases rest) (simp_all add: display_prayer_times_def)

lemma display_events:
  "set (fst (display_prayer_times t s rest)) \<subseteq> insert PrayerTable (set (fst rest))"
  using display_cases [of t s rest] by auto

lemma make_announcements_flag:
  "current_prayer_announced (fst (snd (make_announcements t s tm n))) = current_prayer_announced s"
proof -
  obtain b s' where sa: "should_announce s tm = (b, s')" by (cases "should_announce s tm")
  have s': "current_prayer_announced s' = current_prayer_announced s"
    using sa flag_should_announce [of s tm] by simp
  show ?thesis
    using perform_cases [of t "Sleep 1" s' "([], s', None)"]
      perform_cases [of t "Announcement (announcement_message tm n)" s'
        "perform t (Sleep 1) s' ([], s', None)"]
    by (cases b) (auto simp: make_announcements_def sa s')
qed

lemma make_announcements_events:
  "set (fst (make_announcements t s tm n)) \<subseteq> {Announcement (announcement_message tm n), Sleep 1}"
proof -
  obtain b s' where sa: "should_announce s tm = (b, s')" by (cases "should_announce s tm")
  show ?thesis
    using perform_cases [of t "Sleep 1" s' "([], s', None)"]
      perform_cases [of t "Announcement (announcement_message tm n)" s'
        "perform t (Sleep 1) s' ([], s', None)"]
    by (cases b) (auto simp: make_announcements_def sa)
qed

lemma announce_prayer_time_ok:
  assumes "fault t (Banner n) = None" "fault t Azan = None" "fault t PrayerTable = None"
    "fault t (Sleep 60) = None" "list_all (\<lambda>prayer. prayer_times s prayer \<noteq> None) PRAYERS"
  shows "announce_prayer_time t s n =
     ([Banner n, Azan, PrayerTable, Sleep 60],
      s\<lparr>current_prayer_announced := True, announced_intervals := {}\<rparr>, None)"
  using assms by (simp add: announce_prayer_time_def perform_def display_prayer_times_def Let_def)

lemma announce_prayer_time_completed:
  assumes "announce_prayer_time t s n = (evs, s', None)"
  shows "evs = [Banner n, Azan, PrayerTable, Sleep 60] \<and>
         s' = s\<lparr>current_prayer_announced := True, announced_intervals := {}\<rparr>"
  using assms
  by (auto simp: announce_prayer_time_def perform_def display_prayer_times_def Let_def
      split: option.splits if_splits)

lemma announce_prayer_time_events:
  "set (fst (announce_prayer_time t s n)) \<subseteq> {Banner n, Azan, PrayerTable, Sleep 60}"
proof -
  let ?s' = "s\<lparr>current_prayer_announced := True, announced_intervals := {}\<rparr>"
  let ?r3 = "perform t (Sleep 60) ?s' ([], ?s', None)"
  let ?r2 = "display_prayer_times t s ?r3"
  let ?r1 = "perform t Azan s ?r2"
  have "set (fst ?r3) \<subseteq> {Sleep 60}"
    using perform_events [of t "Sleep 60" ?s' "([], ?s', None)"] by simp
  then have "set (fst ?r2) \<subseteq> {PrayerTable, Sleep 60}"
    using display_events [of t s ?r3] by auto
  then have "set (fst ?r1) \<subseteq> {Azan, PrayerTable, Sleep 60}"
    using perform_events [of t Azan s ?r2] by auto
  then have "set (fst (perform t (Banner n) s ?r1)) \<subseteq> {Banner n, Azan, PrayerTable, Sleep 60}"
    using perform_events [of t "Banner n" s ?r1] by auto
  then show ?thesis by (simp add: announce_prayer_time_def Let_def)
qed

text \<open>The turn once \<^verbatim>\<open>get_next_prayer\<close> has returned: the name is never empty.\<close>

lemma run_body_next:
  assumes "get_next_prayer (prayer_times s) (now_next t) = Inr (n, pt)"
    and "get_time_remaining (now_remaining t) pt = (h, m, sec)"
  shows "run_body s t =
     perform t (Countdown n pt h m sec) s
       (if h * 60 + m = 0 \<and> sec = 0 then
          (if \<not> current_prayer_announced s then announce_prayer_time t s n
           else make_announcements t s (h * 60 + m) n)
        else make_announcements t (s\<lparr>current_prayer_announced := False\<rparr>) (h * 60 + m) n)"
proof -
  have "n \<noteq> []"
    using get_next_prayer_result [OF assms(1)] PRAYERS_nonempty by blast
  then show ?thesis
    using assms by (simp add: run_body_def Let_def)
qed

lemma run_body_raised:
  "get_next_prayer (prayer_times s) (now_next t) = Inl e \<Longrightarrow>
   run_body s t = ([], s, Some (Exception e))"
  by (simp add: run_body_def)

lemma run_body_events:
  "set (fst (run_body s t)) \<subseteq>
     {ev. (\<exists>n pt h m sec. ev = Countdown n pt h m sec) \<or> (\<exists>n. ev = Banner n) \<or> ev = Azan
          \<or> ev = PrayerTable \<or> ev = Sleep 60 \<or> (\<exists>msg. ev = Announcement msg) \<or> ev = Sleep 1}"
proof (cases "get_next_prayer (prayer_times s) (now_next t)")
  case (Inl e)
  then show ?thesis by (simp add: run_body_raised)
next
  case (Inr found)
  obtain n pt where found: "found = (n, pt)" by (cases found)
  obtain h m sec where rem: "get_time_remaining (now_remaining t) pt = (h, m, sec)"
    by (cases "get_time_remaining (now_remaining t) pt")
  define rest where "rest =
       (if h * 60 + m = 0 \<and> sec = 0 then
          (if \<not> current_prayer_announced s then announce_prayer_time t s n
           else make_announcements t s (h * 60 + m) n)
        else make_announcements t (s\<lparr>current_prayer_announced := False\<rparr>) (h * 60 + m) n)"
  have "rest = announce_prayer_time t s n \<or> rest = make_announcements t s (h * 60 + m) n
      \<or> rest = make_announcements t (s\<lparr>current_prayer_announced := False\<rparr>) (h * 60 + m) n"
    by (simp add: rest_def)
  then have rest: "set (fst rest) \<subseteq> {Banner n, Azan, PrayerTable, Sleep 60,
      Announcement (announcement_message (h * 60 + m) n), Sleep 1}"
    using announce_prayer_time_events [of t s n]
      make_announcements_events [of t s "h * 60 + m" n]
      make_announcements_events [of t "s\<lparr>current_prayer_announced := False\<rparr>" "h * 60 + m" n]
    by (elim disjE) blast+
  have "run_body s t = perform t (Countdown n pt h m sec) s rest"
    unfolding rest_def by (rule run_body_next [OF Inr [unfolded found] rem])
  then have "set (fst (run_body s t)) \<subseteq> insert (Countdown n pt h m sec) (set (fst rest))"
    using perform_events [of t "Countdown n pt h m sec" s rest] by simp
  with rest show ?thesis by blast
qed

text \<open>
  C10, as amended. Let every one of the five prayers have a time of day \<open>hm p\<close> in the schedule, and
  let \<open>now\<close> have a prayer still ahead today or a tomorrow. Then \<^verbatim>\<open>get_next_prayer\<close>
  returns one of the five names, never an empty one, and an instant strictly after
  \<open>now\<close>: the prayer's time on today's date, or Fajr's on tomorrow's date. No turn of the
  loop, for any schedule, reports that no prayer is upcoming.
\<close>

theorem get_next_prayer_always_upcoming:
  assumes "\<forall>p\<in>set PRAYERS. \<exists>str. pt p = Some (JStr str) \<and> strptime_HM str = Inr (hm p)"
    and "(\<exists>p\<in>set PRAYERS. now < at_date (date_of now) (hm p)) \<or> date_of now + 1 < MAXORDINAL"
  shows "(\<exists>name t. get_next_prayer pt now = Inr (name, t)
            \<and> name \<in> set PRAYERS \<and> name \<noteq> [] \<and> now < t
            \<and> (t = at_date (date_of now) (hm name) \<and> date_of t = date_of now
               \<or> name = ''Fajr'' \<and> t = at_date (date_of now + 1) (hm ''Fajr'')
                  \<and> date_of t = date_of now + 1))
         \<and> NoUpcoming \<notin> set (fst (run_body s tk))"
proof
  have in_day: "date_of (at_date d (hm p)) = d" if "p \<in> set PRAYERS" for p d
  proof -
    from assms(1) that obtain str where "strptime_HM str = Inr (fst (hm p), snd (hm p))"
      by auto
    then have "fst (hm p) \<le> 23 \<and> snd (hm p) \<le> 59" by (rule strptime_HM_range)
    then show ?thesis by (simp add: date_of_at_date)
  qed
  note next_prayer = get_next_prayer_find [OF assms]
  show "\<exists>name t. get_next_prayer pt now = Inr (name, t)
            \<and> name \<in> set PRAYERS \<and> name \<noteq> [] \<and> now < t
            \<and> (t = at_date (date_of now) (hm name) \<and> date_of t = date_of now
               \<or> name = ''Fajr'' \<and> t = at_date (date_of now + 1) (hm ''Fajr'')
                  \<and> date_of t = date_of now + 1)"
  proof (cases "find (\<lambda>p. now < at_date (date_of now) (hm p)) PRAYERS")
    case None
    then have "get_next_prayer pt now = Inr (''Fajr'', at_date (date_of now + 1) (hm ''Fajr''))"
      using next_prayer by simp
    then show ?thesis
      using Fajr_in_PRAYERS PRAYERS_nonempty [OF Fajr_in_PRAYERS] tomorrow_later [of now]
        in_day [OF Fajr_in_PRAYERS]
      by simp
  next
    case (Some p)
    then have p: "p \<in> set PRAYERS" "now < at_date (date_of now) (hm p)"
      by (auto simp: find_Some_iff)
    from Some have "get_next_prayer pt now = Inr (p, at_date (date_of now) (hm p))"
      using next_prayer by simp
    then show ?thesis
      using p PRAYERS_nonempty [OF p(1)] in_day [OF p(1)] by simp
  qed
next
  show "NoUpcoming \<notin> set (fst (run_body s tk))"
    using run_body_events [of s tk] by auto
qed

theorem get_next_prayer_always_upcoming_witness:
  "(\<exists>name t. get_next_prayer example_schedule (mk_datetime 739000 20 30 0 0) = Inr (name, t)
       \<and> name \<in> set PRAYERS \<and> mk_datetime 739000 20 30 0 0 < t)
   \<and> NoUpcoming \<notin> set (fst (run_body init_timer
         \<lparr>now_next = mk_datetime 739000 20 30 0 0, now_remaining = mk_datetime 739000 20 30 0 1,
          fault = (\<lambda>ev. None)\<rparr>))"
proof -
  have d: "date_of (mk_datetime 739000 20 30 0 0) = 739000"
    by (simp add: date_of_def mk_datetime_def DAY_def)
  have range: "739000 + 1 < MAXORDINAL"
    by (simp add: MAXORDINAL_def)
  show ?thesis
    using get_next_prayer_always_upcoming
        [OF example_schedule_times, of "mk_datetime 739000 20 30 0 0" init_timer
          "\<lparr>now_next = mk_datetime 739000 20 30 0 0, now_remaining = mk_datetime 739000 20 30 0 1,
            fault = (\<lambda>ev. None)\<rparr>", unfolded d, OF disjI2, OF range]
    by blast
qed

text \<open>On 9999-12-31 at 20:30, the time of Isha, \<^verbatim>\<open>get_next_prayer\<close> returns no
  prayer and no instant: it raises.\<close>

theorem get_next_prayer_no_tomorrow_counterexample:
  "get_next_prayer example_schedule (mk_datetime 3652058 20 30 0 0) = Inl OverflowError"
proof -
  have d: "date_of (mk_datetime 3652058 20 30 0 0) = 3652058"
    by (simp add: date_of_def mk_datetime_def DAY_def)
  have "scan_today example_schedule (mk_datetime 3652058 20 30 0 0) PRAYERS = Inr None"
    unfolding scan_today_find [OF example_schedule_times] d
    by (simp add: PRAYERS_def at_date_def mk_datetime_def DAY_def)
  moreover have "add_one_day (mk_datetime 3652058 20 30 0 0) = Inl OverflowError"
    by (simp add: add_one_day_def date_of_add_DAY d MAXORDINAL_def)
  ultimately show ?thesis
    by (simp add: get_next_prayer_def)
qed

section \<open>The deadline\<close>

lemma example_before_Maghrib:
  assumes "date_of now = d" "mk_datetime d 16 0 0 0 \<le> now" "now < mk_datetime d 19 0 0 0"
  shows "get_next_prayer example_schedule now = Inr (''Maghrib'', mk_datetime d 19 0 0 0)"
  using assms(2,3)
    get_next_prayer_find [OF example_schedule_times, of now, unfolded assms(1)]
  by (simp add: PRAYERS_def at_date_def mk_datetime_def DAY_def)

lemma example_schedule_complete:
  "list_all (\<lambda>prayer. example_schedule prayer \<noteq> None) PRAYERS"
  by (simp add: PRAYERS_def example_schedule_def)

lemma crossing_tick_next:
  "get_next_prayer (prayer_times example_timer) (now_next crossing_tick)
     = Inr (''Maghrib'', mk_datetime 739000 19 0 0 0)"
  unfolding example_timer_def crossing_tick_def timer.simps tick.simps
  by (rule example_before_Maghrib) (simp_all add: date_of_def mk_datetime_def DAY_def)

lemma quiet_tick_next:
  "get_next_prayer (prayer_times example_timer) (now_next quiet_tick)
     = Inr (''Maghrib'', mk_datetime 739000 19 0 0 0)"
  unfolding example_timer_def quiet_tick_def timer.simps tick.simps
  by (rule example_before_Maghrib) (simp_all add: date_of_def mk_datetime_def DAY_def)

lemma positive_not_zero:
  assumes "get_time_remaining now deadline = (h, m, sec)" "0 < total_seconds now deadline"
  shows "\<not> (h * 60 + m = 0 \<and> sec = 0)"
proof
  assume zero: "h * 60 + m = 0 \<and> sec = 0"
  from assms(1) have "h * 3600 + m * 60 + sec = total_seconds now deadline"
    using hms_sum [of "total_seconds now deadline"]
    by (simp add: get_time_remaining_def Let_def)
  with zero assms(2) show False by simp
qed

text \<open>
  C2. Take a turn in which \<^verbatim>\<open>get_next_prayer\<close> has returned the deadline.
  If the time remaining is (0, 0, 0), the flag is false, the five prayers are in the
  schedule and no call to the outside fails, the turn announces the prayer time once
  (one banner, one azan), sets the flag and empties the set of fired thresholds. If the
  time remaining is (0, 0, 0) and the flag is already true, the turn announces nothing.
  If a whole second or more remains and the countdown line can be written, the turn
  leaves the flag false, whatever happens later in it.
\<close>

theorem deadline_crossing_step:
  assumes "get_next_prayer (prayer_times s) (now_next t) = Inr (name, deadline)"
  shows "(get_time_remaining (now_remaining t) deadline = (0, 0, 0)
            \<and> \<not> current_prayer_announced s
            \<and> (\<forall>ev. fault t ev = None)
            \<and> list_all (\<lambda>prayer. prayer_times s prayer \<noteq> None) PRAYERS
          \<longrightarrow> run_body s t =
                ([Countdown name deadline 0 0 0, Banner name, Azan, PrayerTable, Sleep 60],
                 s\<lparr>current_prayer_announced := True, announced_intervals := {}\<rparr>, None))
       \<and> (get_time_remaining (now_remaining t) deadline = (0, 0, 0)
            \<and> current_prayer_announced s
          \<longrightarrow> Banner name \<notin> set (fst (run_body s t)) \<and> Azan \<notin> set (fst (run_body s t)))
       \<and> (0 < total_seconds (now_remaining t) deadline
            \<and> (\<forall>h m sec. fault t (Countdown name deadline h m sec) = None)
          \<longrightarrow> \<not> current_prayer_announced (fst (snd (run_body s t))))"
proof (intro conjI impI)
  assume a: "get_time_remaining (now_remaining t) deadline = (0, 0, 0)
            \<and> \<not> current_prayer_announced s
            \<and> (\<forall>ev. fault t ev = None)
            \<and> list_all (\<lambda>prayer. prayer_times s prayer \<noteq> None) PRAYERS"
  then have "announce_prayer_time t s name =
     ([Banner name, Azan, PrayerTable, Sleep 60],
      s\<lparr>current_prayer_announced := True, announced_intervals := {}\<rparr>, None)"
    by (simp add: announce_prayer_time_ok)
  then show "run_body s t =
                ([Countdown name deadline 0 0 0, Banner name, Azan, PrayerTable, Sleep 60],
                 s\<lparr>current_prayer_announced := True, announced_intervals := {}\<rparr>, None)"
    using a run_body_next [OF assms, of 0 0 0] by (simp add: perform_ok)
next
  assume a: "get_time_remaining (now_remaining t) deadline = (0, 0, 0)
            \<and> current_prayer_announced s"
  then have body: "run_body s t =
      perform t (Countdown name deadline 0 0 0) s (make_announcements t s 0 name)"
    using run_body_next [OF assms, of 0 0 0] by simp
  have "set (fst (run_body s t)) \<subseteq>
      {Countdown name deadline 0 0 0, Announcement (announcement_message 0 name), Sleep 1}"
    unfolding body
    using perform_events [of t "Countdown name deadline 0 0 0" s "make_announcements t s 0 name"]
      make_announcements_events [of t s 0 name]
    by blast
  then show "Banner name \<notin> set (fst (run_body s t))" "Azan \<notin> set (fst (run_body s t))"
    by auto
next
  assume a: "0 < total_seconds (now_remaining t) deadline
            \<and> (\<forall>h m sec. fault t (Countdown name deadline h m sec) = None)"
  obtain h m sec where rem: "get_time_remaining (now_remaining t) deadline = (h, m, sec)"
    by (cases "get_time_remaining (now_remaining t) deadline")
  have nonzero: "\<not> (h * 60 + m = 0 \<and> sec = 0)"
    using rem a by (simp add: positive_not_zero)
  have "run_body s t =
      perform t (Countdown name deadline h m sec) s
        (make_announcements t (s\<lparr>current_prayer_announced := False\<rparr>) (h * 60 + m) name)"
    using run_body_next [OF assms rem] by (simp only: if_not_P [OF nonzero])
  moreover have "fault t (Countdown name deadline h m sec) = None"
    using a by simp
  ultimately have "run_body s t =
      (Countdown name deadline h m sec
         # fst (make_announcements t (s\<lparr>current_prayer_announced := False\<rparr>) (h * 60 + m) name),
       snd (make_announcements t (s\<lparr>current_prayer_announced := False\<rparr>) (h * 60 + m) name))"
    using perform_cases [of t "Countdown name deadline h m sec" s
        "make_announcements t (s\<lparr>current_prayer_announced := False\<rparr>) (h * 60 + m) name"]
    by simp
  then show "\<not> current_prayer_announced (fst (snd (run_body s t)))"
    by (simp add: make_announcements_flag)
qed

theorem deadline_crossing_step_witness:
  "run_body example_timer crossing_tick =
     ([Countdown ''Maghrib'' (mk_datetime 739000 19 0 0 0) 0 0 0, Banner ''Maghrib'', Azan,
       PrayerTable, Sleep 60],
      \<lparr>prayer_times = example_schedule, announced_intervals = {},
       current_prayer_announced = True\<rparr>, None)
   \<and> 0 < total_seconds (now_remaining quiet_tick) (mk_datetime 739000 19 0 0 0)
   \<and> \<not> current_prayer_announced
         (fst (snd (run_body (example_timer\<lparr>current_prayer_announced := True\<rparr>) quiet_tick)))"
proof -
  have zero: "get_time_remaining (now_remaining crossing_tick) (mk_datetime 739000 19 0 0 0)
                = (0, 0, 0)"
    by (simp add: crossing_tick_def get_time_remaining_near mk_datetime_def)
  have quiet: "\<forall>ev. fault crossing_tick ev = None" "\<forall>ev. fault quiet_tick ev = None"
    by (simp_all add: crossing_tick_def quiet_tick_def)
  have complete: "list_all (\<lambda>prayer. prayer_times example_timer prayer \<noteq> None) PRAYERS"
    using example_schedule_complete by (simp add: example_timer_def)
  have positive: "0 < total_seconds (now_remaining quiet_tick) (mk_datetime 739000 19 0 0 0)"
    by (simp add: quiet_tick_def total_seconds_near mk_datetime_def)
  have next': "get_next_prayer (prayer_times (example_timer\<lparr>current_prayer_announced := True\<rparr>))
                 (now_next quiet_tick) = Inr (''Maghrib'', mk_datetime 739000 19 0 0 0)"
    using quiet_tick_next by simp
  show ?thesis
    using deadline_crossing_step [OF crossing_tick_next] deadline_crossing_step [OF next']
      zero quiet complete positive
    by (simp add: example_timer_def)
qed

lemma run_body_banner_reset:
  assumes "run_body s t = (evs, s', None)" "Banner n \<in> set evs"
  shows "announced_intervals s' = {} \<and> current_prayer_announced s'"
proof (cases "get_next_prayer (prayer_times s) (now_next t)")
  case (Inl e)
  with assms show ?thesis by (simp add: run_body_raised)
next
  case (Inr found)
  obtain name deadline where found: "found = (name, deadline)" by (cases found)
  obtain h m sec where rem: "get_time_remaining (now_remaining t) deadline = (h, m, sec)"
    by (cases "get_time_remaining (now_remaining t) deadline")
  define rest where "rest =
       (if h * 60 + m = 0 \<and> sec = 0 then
          (if \<not> current_prayer_announced s then announce_prayer_time t s name
           else make_announcements t s (h * 60 + m) name)
        else make_announcements t (s\<lparr>current_prayer_announced := False\<rparr>) (h * 60 + m) name)"
  have body: "run_body s t = perform t (Countdown name deadline h m sec) s rest"
    unfolding rest_def by (rule run_body_next [OF Inr [unfolded found] rem])
  with assms(1) have rest: "evs = Countdown name deadline h m sec # fst rest" "snd rest = (s', None)"
    using perform_cases [of t "Countdown name deadline h m sec" s rest] by auto
  with assms(2) have banner: "Banner n \<in> set (fst rest)" by simp
  have "rest = announce_prayer_time t s name \<or> rest = make_announcements t s (h * 60 + m) name
      \<or> rest = make_announcements t (s\<lparr>current_prayer_announced := False\<rparr>) (h * 60 + m) name"
    by (simp add: rest_def)
  then have "rest = announce_prayer_time t s name"
  proof (elim disjE)
    assume "rest = make_announcements t s (h * 60 + m) name"
    then have "set (fst rest) \<subseteq> {Announcement (announcement_message (h * 60 + m) name), Sleep 1}"
      using make_announcements_events by simp
    with banner show ?thesis by auto
  next
    assume "rest = make_announcements t (s\<lparr>current_prayer_announced := False\<rparr>) (h * 60 + m) name"
    then have "set (fst rest) \<subseteq> {Announcement (announcement_message (h * 60 + m) name), Sleep 1}"
      using make_announcements_events by simp
    with banner show ?thesis by auto
  qed
  then have "announce_prayer_time t s name = (fst rest, s', None)"
    using rest(2) by (metis prod.collapse)
  then show ?thesis
    using announce_prayer_time_completed by fastforce
qed

text \<open>
  C6. Once the set of fired thresholds has been emptied, every ladder value and every
  minute from 1 to 19 is announced again at its next call, whether or not it had fired
  before. The set is emptied by every turn that announces a prayer time and runs to its
  end: in the timer such a turn leaves, \<^verbatim>\<open>should_announce\<close> answers true for every such
  value.
\<close>

theorem reset_makes_eligible:
  assumes "m \<in> set ANNOUNCEMENT_INTERVALS \<or> (1 \<le> m \<and> m < 20)"
  shows "fst (should_announce (s\<lparr>announced_intervals := {}\<rparr>) m)
         \<and> (run_body s t = (evs, s', None) \<and> Banner n \<in> set evs
              \<longrightarrow> fst (should_announce s' m))"
proof (intro conjI impI)
  show "fst (should_announce (s\<lparr>announced_intervals := {}\<rparr>) m)"
    using assms by (simp add: fst_should_announce)
next
  assume "run_body s t = (evs, s', None) \<and> Banner n \<in> set evs"
  then have "announced_intervals s' = {}"
    using run_body_banner_reset by blast
  then show "fst (should_announce s' m)"
    using assms by (simp add: fst_should_announce)
qed

lemma example_crossing:
  "run_body example_timer crossing_tick =
     ([Countdown ''Maghrib'' (mk_datetime 739000 19 0 0 0) 0 0 0, Banner ''Maghrib'', Azan,
       PrayerTable, Sleep 60],
      \<lparr>prayer_times = example_schedule, announced_intervals = {},
       current_prayer_announced = True\<rparr>, None)"
proof -
  have "get_time_remaining (now_remaining crossing_tick) (mk_datetime 739000 19 0 0 0)
          = (0, 0, 0)"
    by (simp add: crossing_tick_def get_time_remaining_near mk_datetime_def)
  from run_body_next [OF crossing_tick_next this] show ?thesis
    using example_schedule_complete
    by (simp add: announce_prayer_time_ok perform_ok)
      (simp add: example_timer_def crossing_tick_def perform_def announce_prayer_time_def
        display_prayer_times_def)
qed

theorem reset_makes_eligible_witness:
  "30 \<in> announced_intervals example_timer
   \<and> fst (should_announce example_timer 30) = False
   \<and> fst (should_announce (example_timer\<lparr>announced_intervals := {}\<rparr>) 30) = True
   \<and> fst (should_announce (fst (snd (run_body example_timer crossing_tick))) 30) = True
   \<and> fst (should_announce (fst (snd (run_body example_timer crossing_tick))) 5) = True"
proof -
  have ladder: "30 \<in> set ANNOUNCEMENT_INTERVALS \<or> (1 \<le> (30::int) \<and> (30::int) < 20)"
    by (simp add: ANNOUNCEMENT_INTERVALS_def)
  have minute: "5 \<in> set ANNOUNCEMENT_INTERVALS \<or> (1 \<le> (5::int) \<and> (5::int) < 20)"
    by simp
  have fired: "30 \<in> announced_intervals example_timer"
    "fst (should_announce example_timer 30) = False"
    by (simp_all add: example_timer_def fst_should_announce)
  let ?evs = "[Countdown ''Maghrib'' (mk_datetime 739000 19 0 0 0) 0 0 0,
      Banner ''Maghrib'', Azan, PrayerTable, Sleep 60]"
  let ?s' = "\<lparr>prayer_times = example_schedule, announced_intervals = {},
       current_prayer_announced = True\<rparr>"
  show ?thesis
    using reset_makes_eligible [OF ladder, of example_timer crossing_tick ?evs ?s' "''Maghrib''"]
      reset_makes_eligible [OF minute, of example_timer crossing_tick ?evs ?s' "''Maghrib''"]
      example_crossing fired
    by simp
qed

section \<open>The loop and its handlers\<close>

lemma run_iteration_quiet:
  "run_body s t = (evs, s', None) \<Longrightarrow> run_iteration s t = (evs, s', GoesOn)"
  by (simp add: run_iteration_def)

















section \<open>Location and schedule from the network\<close>

lemma eq_str_iff: "eq_str v k = (v = JStr k)"
  by (cases v) auto

lemma detect_location_cases:
  "snd (detect_location r) = default_location
   \<or> (\<exists>data lat lon c co.
        r = Body data \<and> getitem data ''status'' = Inr (JStr ''success'')
        \<and> getitem data ''lat'' = Inr lat \<and> getitem data ''lon'' = Inr lon
        \<and> getitem data ''city'' = Inr c \<and> getitem data ''country'' = Inr co
        \<and> detect_location r = ([], \<lparr>latitude = lat, longitude = lon, city = c, country = co\<rparr>))"
proof (cases r)
  case (Raises e)
  then show ?thesis by (simp add: detect_location_def detection_failed_def)
next
  case (Body data)
  show ?thesis
  proof (cases "getitem data ''status''")
    case (Inl e)
    with Body show ?thesis by (simp add: detect_location_def detection_failed_def)
  next
    case status: (Inr status)
    show ?thesis
    proof (cases "eq_str status ''success''")
      case False
      with Body status show ?thesis by (simp add: detect_location_def)
    next
      case True
      then have "getitem data ''status'' = Inr (JStr ''success'')"
        using status by (simp add: eq_str_iff)
      with Body True show ?thesis
        by (cases "getitem data ''lat''"; cases "getitem data ''lon''";
            cases "getitem data ''city''"; cases "getitem data ''country''")
          (simp_all add: detect_location_def detection_failed_def)
    qed
  qed
qed

text \<open>
  C8. \<^verbatim>\<open>detect_location\<close> always returns a location. When the request or the decoding
  raises (no network, a timeout, a body that is not JSON), when the data has no
  \<^verbatim>\<open>status\<close> to read, when the status is not \<^verbatim>\<open>'success'\<close>, and when one of the
  four fields is missing, it returns the default location: Mecca, Saudi Arabia,
  latitude 21.4225, longitude 39.8262. Whatever the answer, the location returned is the
  default one unless the status was \<^verbatim>\<open>'success'\<close> and all four fields were there.
\<close>

theorem detect_location_fallback:
  "detect_location (Raises e) = ([DetectionFailed e, UsingDefault], default_location)
   \<and> (getitem data ''status'' = Inl e
        \<longrightarrow> detect_location (Body data) = ([DetectionFailed e, UsingDefault], default_location))
   \<and> (getitem data ''status'' = Inr status \<and> \<not> eq_str status ''success''
        \<longrightarrow> detect_location (Body data) = ([UsingDefault], default_location))
   \<and> (getitem data ''status'' = Inr status \<and> eq_str status ''success''
        \<and> (getitem data ''lat'' = Inl e \<or> getitem data ''lon'' = Inl e
             \<or> getitem data ''city'' = Inl e \<or> getitem data ''country'' = Inl e)
        \<longrightarrow> snd (detect_location (Body data)) = default_location)
   \<and> (snd (detect_location r) = default_location
        \<or> (\<exists>data lat lon c co.
              r = Body data \<and> getitem data ''status'' = Inr (JStr ''success'')
              \<and> getitem data ''lat'' = Inr lat \<and> getitem data ''lon'' = Inr lon
              \<and> getitem data ''city'' = Inr c \<and> getitem data ''country'' = Inr co
              \<and> detect_location r
                   = ([], \<lparr>latitude = lat, longitude = lon, city = c, country = co\<rparr>)))
   \<and> latitude default_location = JFloat 21.4225
   \<and> longitude default_location = JFloat 39.8262
   \<and> city default_location = JStr ''Mecca''
   \<and> country default_location = JStr ''Saudi Arabia''"
proof (intro conjI impI)
  show "detect_location (Raises e) = ([DetectionFailed e, UsingDefault], default_location)"
    by (simp add: detect_location_def detection_failed_def)
next
  assume "getitem data ''status'' = Inl e"
  then show "detect_location (Body data) = ([DetectionFailed e, UsingDefault], default_location)"
    by (simp add: detect_location_def detection_failed_def)
next
  assume "getitem data ''status'' = Inr status \<and> \<not> eq_str status ''success''"
  then show "detect_location (Body data) = ([UsingDefault], default_location)"
    by (simp add: detect_location_def)
next
  assume a: "getitem data ''status'' = Inr status \<and> eq_str status ''success''
        \<and> (getitem data ''lat'' = Inl e \<or> getitem data ''lon'' = Inl e
             \<or> getitem data ''city'' = Inl e \<or> getitem data ''country'' = Inl e)"
  from detect_location_cases [of "Body data"]
  show "snd (detect_location (Body data)) = default_location"
  proof
    assume "snd (detect_location (Body data)) = default_location"
    then show ?thesis .
  next
    assume "\<exists>data' lat lon c co.
        Body data = Body data' \<and> getitem data' ''status'' = Inr (JStr ''success'')
        \<and> getitem data' ''lat'' = Inr lat \<and> getitem data' ''lon'' = Inr lon
        \<and> getitem data' ''city'' = Inr c \<and> getitem data' ''country'' = Inr co
        \<and> detect_location (Body data)
             = ([], \<lparr>latitude = lat, longitude = lon, city = c, country = co\<rparr>)"
    then obtain lat lon c co where
      "getitem data ''lat'' = Inr lat" "getitem data ''lon'' = Inr lon"
      "getitem data ''city'' = Inr c" "getitem data ''country'' = Inr co"
      by auto
    with a show ?thesis by auto
  qed
next
  show "snd (detect_location r) = default_location
        \<or> (\<exists>data lat lon c co.
              r = Body data \<and> getitem data ''status'' = Inr (JStr ''success'')
              \<and> getitem data ''lat'' = Inr lat \<and> getitem data ''lon'' = Inr lon
              \<and> getitem data ''city'' = Inr c \<and> getitem data ''country'' = Inr co
              \<and> detect_location r
                   = ([], \<lparr>latitude = lat, longitude = lon, city = c, country = co\<rparr>))"
    by (rule detect_location_cases)
qed (simp_all add: default_location_def)

theorem detect_location_fallback_witness:
  "detect_location (Raises RequestException)
     = ([DetectionFailed RequestException, UsingDefault], default_location)
   \<and> detect_location (Body (JArr [])) = ([DetectionFailed TypeError, UsingDefault], default_location)
   \<and> detect_location (Body (JObj [(''status'', JStr ''fail''), (''message'', JStr ''reserved range'')]))
     = ([UsingDefault], default_location)
   \<and> snd (detect_location (Body (JObj [(''status'', JStr ''success''), (''lat'', JFloat 30),
                                        (''lon'', JFloat 31), (''country'', JStr ''Egypt'')])))
     = default_location"
proof -
  note t1 = detect_location_fallback [where e = RequestException, THEN conjunct1]
  note t2 = detect_location_fallback
      [where e = TypeError and data = "JArr []", THEN conjunct2, THEN conjunct1]
  note t3 = detect_location_fallback
      [where status = "JStr ''fail''"
         and data = "JObj [(''status'', JStr ''fail''), (''message'', JStr ''reserved range'')]",
       THEN conjunct2, THEN conjunct2, THEN conjunct1]
  note t4 = detect_location_fallback
      [where status = "JStr ''success''" and e = KeyError
         and data = "JObj [(''status'', JStr ''success''), (''lat'', JFloat 30),
                           (''lon'', JFloat 31), (''country'', JStr ''Egypt'')]",
       THEN conjunct2, THEN conjunct2, THEN conjunct2, THEN conjunct1]
  show ?thesis
    using t1 t2 t3 t4 by simp
qed

lemma timings_of_keys:
  "timings_of timings ps = Inr kvs \<Longrightarrow> map fst kvs = ps"
  by (induction ps arbitrary: kvs) (auto split: sum.splits)

lemma fetch_prayer_times_complete:
  assumes "fetch_prayer_times config r = (evs, Returned (Some pt))"
  shows "list_all (\<lambda>prayer. pt prayer \<noteq> None) PRAYERS"
proof -
  from assms obtain timings kvs where
    "timings_of timings PRAYERS = Inr kvs" "pt = map_of kvs"
    by (auto simp: fetch_prayer_times_def fetch_failed_def
        split: if_splits http.splits sum.splits)
  then have "map fst kvs = PRAYERS" "pt = map_of kvs"
    using timings_of_keys by auto
  then have "\<forall>p\<in>set PRAYERS. pt p \<noteq> None"
    by (metis map_of_eq_None_iff set_map)
  then show ?thesis by (simp add: list_all_iff)
qed

lemma fetch_prayer_times_fatal:
  assumes "config ''latitude'' \<noteq> None" "config ''longitude'' \<noteq> None" "config ''method'' \<noteq> None"
  shows "fetch_prayer_times config (Raises e) = ([FetchError e], SysExit 1)"
    and "getitem data ''code'' = Inl e \<Longrightarrow>
         fetch_prayer_times config (Body data) = ([FetchError e], SysExit 1)"
    and "getitem data ''code'' = Inr code \<Longrightarrow> eq_int code 200 \<Longrightarrow>
         getitem data ''data'' = Inl e \<Longrightarrow>
         fetch_prayer_times config (Body data) = ([FetchError e], SysExit 1)"
    and "getitem data ''code'' = Inr code \<Longrightarrow> eq_int code 200 \<Longrightarrow>
         getitem data ''data'' = Inr d \<Longrightarrow> getitem d ''timings'' = Inl e \<Longrightarrow>
         fetch_prayer_times config (Body data) = ([FetchError e], SysExit 1)"
    and "getitem data ''code'' = Inr code \<Longrightarrow> eq_int code 200 \<Longrightarrow>
         getitem data ''data'' = Inr d \<Longrightarrow> getitem d ''timings'' = Inr timings \<Longrightarrow>
         timings_of timings PRAYERS = Inl e \<Longrightarrow>
         fetch_prayer_times config (Body data) = ([FetchError e], SysExit 1)"
  using assms by (simp_all add: fetch_prayer_times_def fetch_failed_def)

text \<open>
  C7. A non-success status code is the one failure of the fetch that is not fatal.
  For an answer whose \<^verbatim>\<open>code\<close> is 400, \<^verbatim>\<open>fetch_prayer_times\<close> reports nothing and
  does not exit: the \<^verbatim>\<open>if\<close> has no \<^verbatim>\<open>else\<close>, and the function returns
  \<^verbatim>\<open>None\<close>. The process then dies in \<^verbatim>\<open>display_prayer_times\<close> of a
  \<^verbatim>\<open>TypeError\<close> that nobody catches.
\<close>

theorem fetch_prayer_times_non_success:
  "fetch_prayer_times example_config bad_request = ([], Returned None)
   \<and> run_start example_config bad_request = ([], Died TypeError)"
  by (simp add: fetch_prayer_times_def run_start_def example_config_def bad_request_def)

end
